theory Spec2Isabelle
  imports Complex_Main "HOL-Library.Word" "HOL-Library.Sublist"
begin

section \<open>Program-file parser (organize\_sp303\_banks.py)\<close>

text \<open>
  A Python \<open>bytes\<close> object is a list of 8-bit words, a Python \<open>str\<close> a list of
  characters (code points below 256; the parser only ever builds characters in the range 32..126).
\<close>

type_synonym byte = "8 word"

text \<open>The exceptions that leave \<open>organize_sp303_banks.py\<close>: the \<open>ValueError\<close> of the header
  check (the specification's FormatError) and the \<open>OSError\<close> of a failing file copy.\<close>

datatype error = ValueError string | OSError "string list"

text \<open>Python's \<open>xs[i:j]\<close> for \<open>0 \<le> i \<le> j\<close>: out-of-range bounds are clipped, never an error.\<close>

definition slice :: "nat \<Rightarrow> nat \<Rightarrow> 'a list \<Rightarrow> 'a list" where
  "slice i j xs = take (j - i) (drop i xs)"

definition chr :: "byte \<Rightarrow> char" where
  "chr b = char_of (unat b)"

definition ord :: "char \<Rightarrow> byte" where
  "ord c = of_nat (of_char c)"

text \<open>\<open>bs.decode('ascii', errors='ignore')\<close>: bytes of 128 and above are dropped.\<close>

definition decode_ascii_ignore :: "byte list \<Rightarrow> string" where
  "decode_ascii_ignore bs = map chr (filter (\<lambda>b. b < 128) bs)"

text \<open>\<open>str.isspace\<close> on one character and \<open>str.strip()\<close>, for code points below 256.\<close>

definition py_isspace :: "char \<Rightarrow> bool" where
  "py_isspace c = ((of_char c :: nat) \<in> {9, 10, 11, 12, 13, 28, 29, 30, 31, 32, 133, 160})"

definition py_strip :: "string \<Rightarrow> string" where
  "py_strip s = rev (dropWhile py_isspace (rev (dropWhile py_isspace s)))"

abbreviation MAGIC :: string where
  "MAGIC \<equiv> ''MPC1000 PGM''"

abbreviation PAD_ENTRY_SIZE :: nat where
  "PAD_ENTRY_SIZE \<equiv> 164"

abbreviation FIRST_SAMPLE_OFFSET :: nat where
  "FIRST_SAMPLE_OFFSET \<equiv> 24"

abbreviation SAMPLE_NAME_SIZE :: nat where
  "SAMPLE_NAME_SIZE \<equiv> 16"

text \<open>
  The inner \<open>for byte in sample_name_raw\<close> loop, with \<open>sample_name\<close> as the accumulator:
  a printable byte is appended, a zero byte leaves the loop, any other byte is dropped.
\<close>

fun clean_name :: "string \<Rightarrow> byte list \<Rightarrow> string" where
  "clean_name sample_name [] = sample_name"
| "clean_name sample_name (b # bs) =
     (if 32 \<le> b \<and> b \<le> 126 then clean_name (sample_name @ [chr b]) bs
      else if b = 0 then sample_name
      else clean_name sample_name bs)"

definition decode_name :: "byte list \<Rightarrow> string" where
  "decode_name sample_name_raw = py_strip (clean_name [] sample_name_raw)"

text \<open>
  The dictionary \<open>pads\<close> keeps insertion order, so it is an association list;
  \<open>pads[k] = v\<close> replaces the value of a key that is present and appends a new key.
\<close>

type_synonym padmap = "(nat \<times> string) list"

fun dict_set :: "padmap \<Rightarrow> nat \<Rightarrow> string \<Rightarrow> padmap" where
  "dict_set [] k v = [(k, v)]"
| "dict_set ((k', v') # kvs) k v =
     (if k' = k then (k, v) # kvs else (k', v') # dict_set kvs k v)"

record scan_state =
  pads :: padmap
  pad_index :: nat
  offset :: nat

datatype flow = Continue scan_state | Break scan_state

text \<open>
  One pass through the body of the \<open>while\<close> loop. Nothing in the \<open>try\<close> block can raise
  on a bytes object, so the \<open>except\<close> branch has no counterpart.
\<close>

definition loop_body :: "byte list \<Rightarrow> scan_state \<Rightarrow> flow" where
  "loop_body data s =
     (let sample_name_raw = slice (offset s) (offset s + SAMPLE_NAME_SIZE) data;
          sample_name = decode_name sample_name_raw
      in if sample_name = [] \<or> length sample_name < 2 then
           (if pad_index s > 0 then
              Continue (s\<lparr>pad_index := pad_index s + 1, offset := offset s + PAD_ENTRY_SIZE\<rparr>)
            else Break s)
         else
           Continue (s\<lparr>pads := dict_set (pads s) (pad_index s) sample_name,
                       pad_index := pad_index s + 1,
                       offset := offset s + PAD_ENTRY_SIZE\<rparr>))"

definition loop_cond :: "byte list \<Rightarrow> scan_state \<Rightarrow> bool" where
  "loop_cond data s = (offset s + SAMPLE_NAME_SIZE \<le> length data \<and> pad_index s < 64)"

function scan_loop :: "byte list \<Rightarrow> scan_state \<Rightarrow> scan_state" where
  "scan_loop data s =
     (if loop_cond data s then
        (case loop_body data s of
           Continue s' \<Rightarrow> scan_loop data s'
         | Break s' \<Rightarrow> s')
      else s)"
  by pat_completeness auto
termination
  by (relation "measure (\<lambda>(data, s). 64 - pad_index s)")
     (auto simp: loop_cond_def loop_body_def Let_def split: if_splits)

declare scan_loop.simps [simp del]

definition initial_state :: scan_state where
  "initial_state = \<lparr>pads = [], pad_index = 0, offset = FIRST_SAMPLE_OFFSET\<rparr>"

definition parse_pgm_file :: "byte list \<Rightarrow> error + padmap" where
  "parse_pgm_file data =
     (let header = decode_ascii_ignore (slice 4 20 data)
      in if \<not> sublist MAGIC header then
           Inl (ValueError (''Not a valid MPC1000 PGM file: '' @ header))
         else
           Inr (pads (scan_loop data initial_state)))"

text \<open>The states the \<open>while\<close> loop passes through at its head, from the initial one.\<close>

inductive reachable :: "byte list \<Rightarrow> scan_state \<Rightarrow> bool" for data :: "byte list" where
  reachable_init: "reachable data initial_state"
| reachable_step:
    "reachable data s \<Longrightarrow> loop_cond data s \<Longrightarrow> loop_body data s = Continue s'
       \<Longrightarrow> reachable data s'"

subsection \<open>Descriptors with well-formed records\<close>

text \<open>
  A well-formed name fits the 16-byte field, has at least two characters, all of them printable
  ASCII, and neither starts nor ends with white space. Its field holds the bytes of the name,
  filled up with zero bytes.
\<close>

definition printable :: "char \<Rightarrow> bool" where
  "printable c = (32 \<le> (of_char c :: nat) \<and> (of_char c :: nat) \<le> 126)"

definition well_formed_name :: "string \<Rightarrow> bool" where
  "well_formed_name n =
     (2 \<le> length n \<and> length n \<le> SAMPLE_NAME_SIZE \<and> list_all printable n
      \<and> \<not> py_isspace (hd n) \<and> \<not> py_isspace (last n))"

definition name_field :: "string \<Rightarrow> byte list" where
  "name_field n = map ord n @ replicate (SAMPLE_NAME_SIZE - length n) 0"

text \<open>
  The buffer holds the name fields of \<open>names\<close> at the record offsets, in order, and is
  exhausted after them: no further name field fits.
\<close>

definition has_records :: "byte list \<Rightarrow> string list \<Rightarrow> bool" where
  "has_records data names =
     ((\<forall>i < length names.
         slice (FIRST_SAMPLE_OFFSET + PAD_ENTRY_SIZE * i)
               (FIRST_SAMPLE_OFFSET + PAD_ENTRY_SIZE * i + SAMPLE_NAME_SIZE) data
           = name_field (names ! i))
      \<and> length data < FIRST_SAMPLE_OFFSET + PAD_ENTRY_SIZE * length names + SAMPLE_NAME_SIZE)"

definition has_magic :: "byte list \<Rightarrow> bool" where
  "has_magic data = sublist MAGIC (decode_ascii_ignore (slice 4 20 data))"

text \<open>A synthetic descriptor: a 24-byte header with the magic text, then one 164-byte record
  per name.\<close>

definition pgm_header :: "byte list" where
  "pgm_header = replicate 4 0 @ map ord ''MPC1000 PGM 1.00'' @ replicate 4 0"

definition pgm_record :: "string \<Rightarrow> byte list" where
  "pgm_record n = name_field n @ replicate (PAD_ENTRY_SIZE - SAMPLE_NAME_SIZE) 0"

definition build_pgm :: "string list \<Rightarrow> byte list" where
  "build_pgm names = pgm_header @ concat (map pgm_record names)"

subsection \<open>Sample buffers\<close>

definition sample_field :: "byte list" where
  "sample_field = [32, 75, 1, 105, 99, 107, 200, 32, 0, 90, 90, 0, 0, 0, 0, 0]"

definition junk_field :: "byte list" where
  "junk_field = [1, 2, 3, 127, 128, 255, 31, 9, 10, 13, 200, 201, 7, 8, 27, 0]"


definition drum_names :: "string list" where
  "drum_names = [''KICK'', ''Snare 01'', ''HH_closed'']"

definition gap_pgm :: "byte list" where
  "gap_pgm = pgm_header @ pgm_record ''KICK'' @ pgm_record '''' @ pgm_record ''HAT''"

definition after_first :: scan_state where
  "after_first = \<lparr>pads = [(0, ''KICK'')], pad_index = 1, offset = 188\<rparr>"

definition short_first_pgm :: "byte list" where
  "short_first_pgm = pgm_header @ pgm_record ''K'' @ pgm_record ''HAT''"


section \<open>Bank organizer (organize\_sp303\_banks.py)\<close>

text \<open>
  A path is the list of its components, as \<open>pathlib\<close> compares paths. The file system is
  outside the program: what the search directory holds, and whether a directory creation or a
  copy raises, are given by a record. \<open>path_exists n\<close> stands for
  \<open>(Path(wav_dir) / n).exists()\<close>, \<open>glob_wav\<close> for the names that
  \<open>Path(wav_dir).glob("*.wav")\<close> yields, in its order.
\<close>

type_synonym path = "string list"

record file_system =
  path_exists :: "string \<Rightarrow> bool"
  glob_wav :: "string list"
  mkdir_fails :: "path \<Rightarrow> bool"
  copy_fails :: "string \<Rightarrow> path \<Rightarrow> bool"

text \<open>\<open>str.lower\<close> for code points below 256.\<close>

definition lower_char :: "char \<Rightarrow> char" where
  "lower_char c =
     (let n = (of_char c :: nat)
      in if (65 \<le> n \<and> n \<le> 90) \<or> (192 \<le> n \<and> n \<le> 222 \<and> n \<noteq> 215) then char_of (n + 32)
         else c)"

definition lower :: "string \<Rightarrow> string" where
  "lower s = map lower_char s"

text \<open>\<open>Path.stem\<close> of a name that ends in \<open>.wav\<close>: the name without this suffix, unless
  the name is the suffix alone.\<close>

definition stem :: "string \<Rightarrow> string" where
  "stem name = (if length name \<le> 4 then name else take (length name - 4) name)"

definition find_wav_file :: "file_system \<Rightarrow> string \<Rightarrow> string option" where
  "find_wav_file fs sample_name =
     (let sample_name_clean = py_strip sample_name;
          wav_path = sample_name_clean @ ''.wav''
      in if path_exists fs wav_path then Some wav_path
         else
           (case List.find (\<lambda>wav_file. lower (stem wav_file) = lower sample_name_clean)
                   (glob_wav fs) of
              Some wav_file \<Rightarrow> Some wav_file
            | None \<Rightarrow>
                List.find (\<lambda>wav_file. sublist (lower sample_name_clean) (lower (stem wav_file)))
                  (glob_wav fs)))"

text \<open>What the organizer does, in order: directories made, files copied, and the lines it
  prints for a pad without a file or without an assignment.\<close>

datatype event =
    MkDir path
  | Copied string path
  | NotFound nat string
  | NoAssignment nat

definition bank_names :: string where
  "bank_names = ''ABCDEFGH''"

definition digit_char :: "nat \<Rightarrow> char" where
  "digit_char d = char_of (48 + d)"

text \<open>The format \<open>{n:04d}\<close>, for \<open>n < 10000\<close>.\<close>

definition fmt_04d :: "nat \<Rightarrow> string" where
  "fmt_04d n = [digit_char (n div 1000 mod 10), digit_char (n div 100 mod 10),
                digit_char (n div 10 mod 10), digit_char (n mod 10)]"

definition dest_path :: "path \<Rightarrow> nat \<Rightarrow> path" where
  "dest_path bank_dir pad_in_bank = bank_dir @ [''SMPL'' @ fmt_04d (pad_in_bank + 1) @ ''.WAV'']"

text \<open>The body of the loop over the pads of a bank. A failing \<open>shutil.copy2\<close> raises, and
  nothing in \<open>create_sp303_banks\<close> catches it.\<close>

definition organize_pad ::
  "file_system \<Rightarrow> padmap \<Rightarrow> path \<Rightarrow> nat \<Rightarrow> nat \<Rightarrow> event list \<times> (error + unit)" where
  "organize_pad fs pads_found bank_dir bank_idx pad_in_bank =
     (let global_pad_num = bank_idx * 8 + pad_in_bank
      in case map_of pads_found global_pad_num of
           Some sample_name \<Rightarrow>
             (case find_wav_file fs sample_name of
                Some wav_file \<Rightarrow>
                  (let dest = dest_path bank_dir pad_in_bank
                   in if copy_fails fs wav_file dest then ([], Inl (OSError dest))
                      else ([Copied wav_file dest], Inr ()))
              | None \<Rightarrow> ([NotFound (pad_in_bank + 1) sample_name], Inr ()))
         | None \<Rightarrow> ([NoAssignment (pad_in_bank + 1)], Inr ()))"

fun pad_loop ::
  "file_system \<Rightarrow> padmap \<Rightarrow> path \<Rightarrow> nat \<Rightarrow> nat list \<Rightarrow> event list \<times> (error + unit)" where
  "pad_loop fs pads_found bank_dir bank_idx [] = ([], Inr ())"
| "pad_loop fs pads_found bank_dir bank_idx (pad_in_bank # rest) =
     (case organize_pad fs pads_found bank_dir bank_idx pad_in_bank of
        (evs, Inl e) \<Rightarrow> (evs, Inl e)
      | (evs, Inr _) \<Rightarrow>
          (case pad_loop fs pads_found bank_dir bank_idx rest of
             (evs', r) \<Rightarrow> (evs @ evs', r)))"

fun bank_loop ::
  "file_system \<Rightarrow> padmap \<Rightarrow> path \<Rightarrow> (nat \<times> char) list \<Rightarrow> event list \<times> (error + unit)" where
  "bank_loop fs pads_found output_dir [] = ([], Inr ())"
| "bank_loop fs pads_found output_dir ((bank_idx, bank_name) # rest) =
     (let bank_dir = output_dir @ [''Bank_'' @ [bank_name]]
      in if mkdir_fails fs bank_dir then ([], Inl (OSError bank_dir))
         else
           (case pad_loop fs pads_found bank_dir bank_idx [0..<8] of
              (evs, Inl e) \<Rightarrow> (MkDir bank_dir # evs, Inl e)
            | (evs, Inr _) \<Rightarrow>
                (case bank_loop fs pads_found output_dir rest of
                   (evs', r) \<Rightarrow> (MkDir bank_dir # evs @ evs', r))))"

definition create_sp303_banks ::
  "file_system \<Rightarrow> byte list \<Rightarrow> path \<Rightarrow> event list \<times> (error + unit)" where
  "create_sp303_banks fs data output_dir =
     (case parse_pgm_file data of
        Inl e \<Rightarrow> ([], Inl e)
      | Inr pads_found \<Rightarrow> bank_loop fs pads_found output_dir (enumerate 0 bank_names))"

text \<open>What the run does after the pad \<open>pad_in_bank\<close> of the bank \<open>bank_idx\<close>: the later pads
  of this bank, then the later banks.\<close>

definition rest_of_run ::
  "file_system \<Rightarrow> padmap \<Rightarrow> path \<Rightarrow> nat \<Rightarrow> nat \<Rightarrow> event list \<times> (error + unit)" where
  "rest_of_run fs pads_found output_dir bank_idx pad_in_bank =
     (case pad_loop fs pads_found (output_dir @ [''Bank_'' @ [bank_names ! bank_idx]]) bank_idx
             [Suc pad_in_bank..<8] of
        (evs, Inl e) \<Rightarrow> (evs, Inl e)
      | (evs, Inr _) \<Rightarrow>
          (case bank_loop fs pads_found output_dir (drop (Suc bank_idx) (enumerate 0 bank_names)) of
             (evs', r) \<Rightarrow> (evs @ evs', r)))"

text \<open>A search directory with two samples, where copying the first one fails.\<close>

definition two_pads_pgm :: "byte list" where
  "two_pads_pgm = build_pgm [''KICK'', ''SNARE'']"

definition failing_fs :: file_system where
  "failing_fs = \<lparr>path_exists = (\<lambda>n. n \<in> set [''KICK.wav'', ''SNARE.wav'']),
                  glob_wav = [''KICK.wav'', ''SNARE.wav''],
                  mkdir_fails = (\<lambda>d. False),
                  copy_fails = (\<lambda>src dest. src = ''KICK.wav'')\<rparr>"

definition snare_failing_fs :: file_system where
  "snare_failing_fs = failing_fs\<lparr>copy_fails := (\<lambda>src dest. src = ''SNARE.wav'')\<rparr>"

definition snare_missing_fs :: file_system where
  "snare_missing_fs = \<lparr>path_exists = (\<lambda>n. n = ''KICK.wav''),
                  glob_wav = [''KICK.wav''],
                  mkdir_fails = (\<lambda>d. False),
                  copy_fails = (\<lambda>src dest. False)\<rparr>"


section \<open>WAV preprocessing (preprocess\_sp303\_wavs.py)\<close>

text \<open>
  What \<open>wave.open(path, 'rb')\<close> reads from a file: the parameters and, with
  \<open>readframes(nframes)\<close>, the frame bytes.
\<close>

record audio_asset =
  nchannels :: nat
  sampwidth :: nat
  framerate :: nat
  nframes :: nat
  frames :: "byte list"

text \<open>
  The files are outside the program. \<open>files w p\<close> is what opening \<open>p\<close> for reading gives,
  \<open>None\<close> when the file is missing or is no readable WAV file. Whether writing an asset to a
  path raises (the operating system or the \<open>wave\<close> module refuses), and what is found at the
  path after such a failure, are given by the world.
\<close>

record world =
  files :: "path \<Rightarrow> audio_asset option"
  write_fails :: "path \<Rightarrow> audio_asset \<Rightarrow> bool"
  failed_write_leaves :: "path \<Rightarrow> audio_asset option"

text \<open>
  Durations are Python floats in the source. They are modelled by exact rational numbers, and
  \<open>MIN_DURATION = 0.11\<close> by \<open>11/100\<close>. For the frame rates a WAV header can hold (below
  \<open>2^32\<close>) and the two targets the program passes (\<open>MIN_DURATION\<close> and \<open>0\<close>), the
  double-precision computation gives the same comparisons and the same truncated frame count.
\<close>

definition MIN_DURATION :: rat where
  "MIN_DURATION = 11 / 100"

record wav_info =
  channels :: nat
  sample_width :: nat
  info_framerate :: nat
  info_frames :: nat
  duration :: rat

text \<open>Any exception, also the division by a frame rate of zero, gives \<open>None\<close>.\<close>

definition get_wav_info :: "world \<Rightarrow> path \<Rightarrow> wav_info option" where
  "get_wav_info w wav_path =
     (case files w wav_path of
        None \<Rightarrow> None
      | Some wav \<Rightarrow>
          if framerate wav = 0 then None
          else Some \<lparr>channels = nchannels wav,
                      sample_width = sampwidth wav,
                      info_framerate = framerate wav,
                      info_frames = nframes wav,
                      duration = of_nat (nframes wav) / of_nat (framerate wav)\<rparr>)"

definition is_too_short :: "wav_info option \<Rightarrow> bool" where
  "is_too_short info = (case info of None \<Rightarrow> False | Some i \<Rightarrow> duration i < MIN_DURATION)"

definition is_sp303_compatible :: "wav_info option \<Rightarrow> bool" where
  "is_sp303_compatible info =
     (case info of
        None \<Rightarrow> False
      | Some i \<Rightarrow> info_framerate i = 44100 \<and> sample_width i = 2 \<and> channels i \<in> set [1, 2]
                  \<and> duration i \<ge> MIN_DURATION)"

text \<open>
  \<open>wave.open(path, 'wb')\<close>, \<open>setparams(params)\<close>, \<open>writeframes(data)\<close>: the file keeps the
  format parameters; its frame count is the number of whole frames written, and those frames
  are what a later read returns.
\<close>

definition written_asset :: "audio_asset \<Rightarrow> byte list \<Rightarrow> audio_asset" where
  "written_asset params data =
     (let n = length data div (nchannels params * sampwidth params)
      in \<lparr>nchannels = nchannels params, sampwidth = sampwidth params,
          framerate = framerate params, nframes = n,
          frames = take (n * (nchannels params * sampwidth params)) data\<rparr>)"

definition wave_write :: "world \<Rightarrow> path \<Rightarrow> audio_asset \<Rightarrow> byte list \<Rightarrow> bool \<times> world" where
  "wave_write w output_path params data =
     (if write_fails w output_path (written_asset params data)
      then (False, w\<lparr>files := (files w)(output_path := failed_write_leaves w output_path)\<rparr>)
      else (True, w\<lparr>files := (files w)(output_path \<mapsto> written_asset params data)\<rparr>))"

text \<open>\<open>int(x)\<close> on a float: truncation towards zero.\<close>

definition py_int :: "rat \<Rightarrow> int" where
  "py_int x = (if x \<ge> 0 then \<lfloor>x\<rfloor> else \<lceil>x\<rceil>)"

definition pad_short_sample :: "world \<Rightarrow> path \<Rightarrow> path \<Rightarrow> rat \<Rightarrow> bool \<times> world" where
  "pad_short_sample w input_path output_path target_duration =
     (case files w input_path of
        None \<Rightarrow> (False, w)
      | Some params \<Rightarrow>
          if framerate params = 0 then (False, w)
          else
            (let current_duration = (of_nat (nframes params) / of_nat (framerate params) :: rat)
             in if current_duration \<ge> target_duration then
                  (if input_path \<noteq> output_path
                   then wave_write w output_path params (frames params)
                   else (True, w))
                else
                  (let target_frames = py_int (target_duration * of_nat (framerate params));
                       silence_frames = target_frames - int (nframes params);
                       silence_bytes =
                         silence_frames * int (nchannels params) * int (sampwidth params);
                       silence = replicate (nat silence_bytes) (0 :: byte);
                       padded_frames = frames params @ silence
                   in wave_write w output_path params padded_frames)))"

definition convert_format :: "world \<Rightarrow> path \<Rightarrow> path \<Rightarrow> bool \<times> world" where
  "convert_format w input_path output_path =
     (case files w input_path of
        None \<Rightarrow> (False, w)
      | Some params \<Rightarrow>
          (let needs_conversion = (framerate params \<noteq> 44100 \<or> sampwidth params \<noteq> 2)
           in if \<not> needs_conversion then
                (if input_path \<noteq> output_path
                 then wave_write w output_path params (frames params)
                 else (True, w))
              else
                (if input_path \<noteq> output_path
                 then (False, snd (wave_write w output_path params (frames params)))
                 else (False, w))))"

record counters =
  compatible_count :: nat
  padded_count :: nat
  format_issues :: nat
  error_count :: nat

text \<open>The body of the loop over the files: \<open>input_path\<close> and \<open>output_path\<close> are the two
  directories, \<open>output_dir\<close> the optional argument.\<close>

definition process_file ::
  "path \<Rightarrow> path option \<Rightarrow> counters \<times> world \<Rightarrow> string \<Rightarrow> counters \<times> world" where
  "process_file input_path output_dir cw name =
     (let c = fst cw; w = snd cw;
          output_path = (case output_dir of Some d \<Rightarrow> d | None \<Rightarrow> input_path);
          wav_file = input_path @ [name];
          info = get_wav_info w wav_file
      in case info of
           None \<Rightarrow> (c\<lparr>error_count := error_count c + 1\<rparr>, w)
         | Some i \<Rightarrow>
             (let output_file = output_path @ [name]
              in if is_too_short info then
                   (case pad_short_sample w wav_file output_file MIN_DURATION of
                      (True, w1) \<Rightarrow>
                        (let c1 = c\<lparr>padded_count := padded_count c + 1\<rparr>;
                             new_info = get_wav_info w1 output_file
                         in case new_info of
                              None \<Rightarrow> (c1, w1)
                            | Some ni \<Rightarrow>
                                if info_framerate ni \<noteq> 44100 \<or> sample_width ni \<noteq> 2 then
                                  (c1\<lparr>format_issues := format_issues c1 + 1\<rparr>,
                                   snd (convert_format w1 output_file output_file))
                                else (c1, w1))
                    | (False, w1) \<Rightarrow> (c\<lparr>error_count := error_count c + 1\<rparr>, w1))
                 else if info_framerate i \<noteq> 44100 \<or> sample_width i \<noteq> 2 then
                   (case convert_format w wav_file output_file of
                      (True, w1) \<Rightarrow> (c\<lparr>compatible_count := compatible_count c + 1\<rparr>, w1)
                    | (False, w1) \<Rightarrow> (c\<lparr>format_issues := format_issues c + 1\<rparr>, w1))
                 else
                   (c\<lparr>compatible_count := compatible_count c + 1\<rparr>,
                    if output_dir \<noteq> None \<and> output_path \<noteq> input_path
                    then snd (pad_short_sample w wav_file output_file 0)
                    else w)))"

text \<open>
  \<open>wav_files\<close> is the sorted list of the names that the two globs find. Without any file the
  function returns before it counts; otherwise it returns the counters of its summary.
\<close>

definition preprocess_directory ::
  "world \<Rightarrow> path \<Rightarrow> path option \<Rightarrow> string list \<Rightarrow> counters option \<times> world" where
  "preprocess_directory w input_path output_dir wav_files =
     (if wav_files = [] then (None, w)
      else
        (let r = foldl (process_file input_path output_dir)
                   (\<lparr>compatible_count = 0, padded_count = 0, format_issues = 0, error_count = 0\<rparr>, w)
                   wav_files
         in (Some (fst r), snd r)))"

definition counter_sum :: "counters \<Rightarrow> nat" where
  "counter_sum c = compatible_count c + padded_count c + format_issues c + error_count c"



subsection \<open>Sample files\<close>

definition no_files :: world where
  "no_files = \<lparr>files = (\<lambda>p. None), write_fails = (\<lambda>p a. False),
                failed_write_leaves = (\<lambda>p. None)\<rparr>"

definition short_100hz :: audio_asset where
  "short_100hz = \<lparr>nchannels = 1, sampwidth = 2, framerate = 100, nframes = 2,
                  frames = [1, 0, 2, 0]\<rparr>"

definition short_100hz_world :: world where
  "short_100hz_world =
     no_files\<lparr>files := (\<lambda>p. if p = [''in'', ''a.wav''] then Some short_100hz else None)\<rparr>"

definition three_channels :: audio_asset where
  "three_channels = \<lparr>nchannels = 3, sampwidth = 2, framerate = 44100, nframes = 4851,
                     frames = replicate 29106 0\<rparr>"

definition three_channels_world :: world where
  "three_channels_world =
     no_files\<lparr>files := (\<lambda>p. if p = [''in'', ''surround.wav''] then Some three_channels else None)\<rparr>"

section \<open>Properties of the parser\<close>

lemma chr_ord: "chr (ord c) = c"
  by (simp add: chr_def ord_def unat_of_nat)

lemma of_char_chr: "(of_char (chr b) :: nat) = unat b"
proof -
  have "unat b < 256" using unsigned_less [of b] by simp
  then show ?thesis by (simp add: chr_def)
qed

lemma ord_printable: "printable c \<Longrightarrow> 32 \<le> ord c \<and> ord c \<le> 126"
  by (simp add: printable_def ord_def word_le_nat_alt unat_of_nat)

lemma printable_chr: "32 \<le> b \<Longrightarrow> b \<le> 126 \<Longrightarrow> printable (chr b)"
  by (simp add: printable_def of_char_chr word_le_nat_alt)

lemma clean_name_acc: "clean_name acc bs = acc @ clean_name [] bs"
proof (induction bs arbitrary: acc)
  case Nil
  show ?case by simp
next
  case (Cons b bs)
  show ?case using Cons.IH [of "acc @ [chr b]"] Cons.IH [of "[chr b]"] Cons.IH [of acc]
    by simp
qed

lemma clean_name_filter:
  "clean_name [] bs = map chr (filter (\<lambda>b. 32 \<le> b \<and> b \<le> 126) (takeWhile (\<lambda>b. b \<noteq> 0) bs))"
proof (induction bs)
  case Nil
  show ?case by simp
next
  case (Cons b bs)
  show ?case using Cons.IH clean_name_acc [of "[chr b]" bs] by auto
qed

lemma py_strip_decomp:
  "\<exists>pre post. s = pre @ py_strip s @ post \<and> list_all py_isspace pre \<and> list_all py_isspace post"
proof -
  let ?t = "dropWhile py_isspace s"
  have 1: "s = takeWhile py_isspace s @ ?t" by simp
  have "rev (takeWhile py_isspace (rev ?t) @ dropWhile py_isspace (rev ?t)) = ?t"
    by (simp only: takeWhile_dropWhile_id rev_rev_ident)
  then have 3: "?t = py_strip s @ rev (takeWhile py_isspace (rev ?t))"
    by (simp only: rev_append py_strip_def)
  have a: "list_all py_isspace (takeWhile py_isspace s)"
    by (simp add: list_all_iff) (meson set_takeWhileD)
  have b: "list_all py_isspace (rev (takeWhile py_isspace (rev ?t)))"
    by (simp add: list_all_iff) (meson set_takeWhileD)
  from 1 3 have "s = takeWhile py_isspace s @ py_strip s @ rev (takeWhile py_isspace (rev ?t))"
    by simp
  with a b show ?thesis by blast
qed

lemma set_py_strip: "set (py_strip s) \<subseteq> set s"
  using py_strip_decomp [of s] by (metis Un_upper1 Un_upper2 set_append subset_trans)

lemma py_strip_edges:
  assumes "py_strip s \<noteq> []"
  shows "\<not> py_isspace (hd (py_strip s))" and "\<not> py_isspace (last (py_strip s))"
proof -
  let ?t = "dropWhile py_isspace s"
  let ?u = "dropWhile py_isspace (rev ?t)"
  from assms have u: "?u \<noteq> []" by (simp add: py_strip_def)
  then have "\<not> py_isspace (hd ?u)" by (rule hd_dropWhile)
  then show "\<not> py_isspace (last (py_strip s))"
    using u by (simp add: py_strip_def last_rev)
  from u have "rev ?t \<noteq> []" by (metis dropWhile.simps(1))
  then have t: "?t \<noteq> []" by (simp only: rev_is_Nil_conv not_False_eq_True)
  then have ht: "\<not> py_isspace (hd ?t)" by (rule hd_dropWhile)
  obtain ws where ws: "rev ?t = ws @ ?u" by (metis takeWhile_dropWhile_id)
  then have "?t = rev ?u @ rev ws" by (metis rev_append rev_rev_ident)
  then have "hd ?t = hd (rev ?u)" using u by (metis hd_append2 rev_is_Nil_conv)
  with ht show "\<not> py_isspace (hd (py_strip s))" by (simp add: py_strip_def)
qed

lemma py_strip_id:
  assumes "n \<noteq> []" "\<not> py_isspace (hd n)" "\<not> py_isspace (last n)"
  shows "py_strip n = n"
proof -
  have 1: "dropWhile py_isspace n = n" using assms by (cases n) auto
  have 2: "dropWhile py_isspace (rev n) = rev n"
    using assms by (cases "rev n") (auto simp: hd_rev)
  show ?thesis by (simp add: py_strip_def 1 2)
qed

lemma printable_not_nul: "printable c \<Longrightarrow> c \<noteq> CHR 0x00"
  by (auto simp: printable_def)

lemma clean_name_printable: "list_all printable (clean_name [] bs)"
  by (simp add: clean_name_filter list_all_iff printable_chr)

lemma clean_name_from_bytes:
  "set (clean_name [] bs) \<subseteq> chr ` {b \<in> set bs. 32 \<le> b \<and> b \<le> 126}"
  by (auto simp: clean_name_filter dest: set_takeWhileD)

lemma clean_name_nonprintable:
  "\<forall>b \<in> set bs. \<not> (32 \<le> b \<and> b \<le> 126) \<Longrightarrow> clean_name [] bs = []"
proof -
  assume a: "\<forall>b \<in> set bs. \<not> (32 \<le> b \<and> b \<le> 126)"
  have "filter (\<lambda>b. 32 \<le> b \<and> b \<le> 126) (takeWhile (\<lambda>b. b \<noteq> 0) bs) = []"
    unfolding filter_empty_conv using a by (meson set_takeWhileD)
  then show ?thesis by (simp add: clean_name_filter)
qed

lemma py_strip_Nil: "py_strip [] = []"
  by (simp add: py_strip_def)

text \<open>
  Claim C6. The decoded, trimmed name of any name field (of 16 bytes or of any other length)
  consists of printable characters only, each the image of a byte of the field in the range
  32..126, and never holds the NUL character; the decoding keeps exactly the bytes in 32..126
  that stand before the first zero byte; trimming removes white space around the name and
  nothing else; a field without printable bytes decodes to the empty name.
\<close>

theorem decode_name_printable:
  "(\<forall>c \<in> set (decode_name raw). printable c \<and> c \<noteq> CHR 0x00
        \<and> (\<exists>b \<in> set raw. c = chr b \<and> 32 \<le> b \<and> b \<le> 126))
   \<and> clean_name [] raw
        = map chr (filter (\<lambda>b. 32 \<le> b \<and> b \<le> 126) (takeWhile (\<lambda>b. b \<noteq> 0) raw))
   \<and> (\<exists>pre post. clean_name [] raw = pre @ decode_name raw @ post
          \<and> list_all py_isspace pre \<and> list_all py_isspace post)
   \<and> (decode_name raw \<noteq> [] \<longrightarrow>
          \<not> py_isspace (hd (decode_name raw)) \<and> \<not> py_isspace (last (decode_name raw)))
   \<and> ((\<forall>b \<in> set raw. \<not> (32 \<le> b \<and> b \<le> 126)) \<longrightarrow> decode_name raw = [])"
proof -
  have sub: "set (decode_name raw) \<subseteq> set (clean_name [] raw)"
    unfolding decode_name_def by (rule set_py_strip)
  have 1: "\<forall>c \<in> set (decode_name raw). printable c \<and> c \<noteq> CHR 0x00
        \<and> (\<exists>b \<in> set raw. c = chr b \<and> 32 \<le> b \<and> b \<le> 126)"
  proof
    fix c assume "c \<in> set (decode_name raw)"
    with sub have c: "c \<in> set (clean_name [] raw)" by blast
    then have p: "printable c" using clean_name_printable [of raw] by (simp add: list_all_iff)
    from c clean_name_from_bytes [of raw]
    have "\<exists>b \<in> set raw. c = chr b \<and> 32 \<le> b \<and> b \<le> 126" by blast
    with p printable_not_nul [OF p]
    show "printable c \<and> c \<noteq> CHR 0x00 \<and> (\<exists>b \<in> set raw. c = chr b \<and> 32 \<le> b \<and> b \<le> 126)"
      by simp
  qed
  have 3: "\<exists>pre post. clean_name [] raw = pre @ decode_name raw @ post
          \<and> list_all py_isspace pre \<and> list_all py_isspace post"
    unfolding decode_name_def by (rule py_strip_decomp)
  have 4: "decode_name raw \<noteq> [] \<longrightarrow>
          \<not> py_isspace (hd (decode_name raw)) \<and> \<not> py_isspace (last (decode_name raw))"
    unfolding decode_name_def using py_strip_edges by blast
  have 5: "(\<forall>b \<in> set raw. \<not> (32 \<le> b \<and> b \<le> 126)) \<longrightarrow> decode_name raw = []"
    unfolding decode_name_def using clean_name_nonprintable [of raw] py_strip_Nil by auto
  from 1 clean_name_filter [of raw] 3 4 5 show ?thesis by blast
qed

theorem decode_name_printable_witness:
  "decode_name sample_field = ''Kick''
   \<and> list_all printable (decode_name sample_field)
   \<and> list_all (\<lambda>b. \<not> (32 \<le> b \<and> b \<le> 126)) junk_field
   \<and> decode_name junk_field = []"
proof -
  have e: "decode_name sample_field = ''Kick''" by code_simp
  have j: "\<forall>b \<in> set junk_field. \<not> (32 \<le> b \<and> b \<le> 126)" by code_simp
  from decode_name_printable [of sample_field]
  have "list_all printable (decode_name sample_field)" unfolding list_all_iff by blast
  moreover from decode_name_printable [of junk_field] j have "decode_name junk_field = []"
    by blast
  ultimately show ?thesis using e j by (simp add: list_all_iff)
qed

lemma scan_loop_stop: "\<not> loop_cond data s \<Longrightarrow> scan_loop data s = s"
  by (simp add: scan_loop.simps)

lemma scan_loop_break: "loop_cond data s \<Longrightarrow> loop_body data s = Break s' \<Longrightarrow> scan_loop data s = s'"
  by (simp add: scan_loop.simps)

lemma scan_loop_continue:
  "loop_cond data s \<Longrightarrow> loop_body data s = Continue s' \<Longrightarrow> scan_loop data s = scan_loop data s'"
  by (simp add: scan_loop.simps)

lemma parse_pgm_file_magic:
  "has_magic data \<Longrightarrow> parse_pgm_file data = Inr (pads (scan_loop data initial_state))"
  by (simp add: parse_pgm_file_def has_magic_def)




text \<open>
  Claim C9, amended. A buffer with a valid magic header that is shorter than 40 bytes, so that
  no 16-byte name field fits at offset 24, parses to the empty pad map without an error.
\<close>

theorem short_buffer_empty_padmap:
  "has_magic data \<Longrightarrow> length data < FIRST_SAMPLE_OFFSET + SAMPLE_NAME_SIZE \<Longrightarrow>
     parse_pgm_file data = Inr []"
  by (simp add: parse_pgm_file_magic scan_loop_stop loop_cond_def initial_state_def)

theorem short_buffer_empty_padmap_witness:
  "has_magic pgm_header \<and> length pgm_header < FIRST_SAMPLE_OFFSET + SAMPLE_NAME_SIZE
   \<and> parse_pgm_file pgm_header = Inr []"
proof -
  have m: "has_magic pgm_header" by code_simp
  have l: "length pgm_header < FIRST_SAMPLE_OFFSET + SAMPLE_NAME_SIZE" by code_simp
  from short_buffer_empty_padmap [OF m l] m l show ?thesis by simp
qed

text \<open>
  A buffer that is shorter than one full 164-byte record after the header, but holds the name
  field of the first record, does not parse to the empty pad map: the loop only asks for the
  16 bytes of the name.
\<close>

theorem short_record_counterexample:
  "has_magic (pgm_header @ name_field ''KICK'')
   \<and> length (pgm_header @ name_field ''KICK'') < FIRST_SAMPLE_OFFSET + PAD_ENTRY_SIZE
   \<and> parse_pgm_file (pgm_header @ name_field ''KICK'') = Inr [(0, ''KICK'')]
   \<and> parse_pgm_file (pgm_header @ name_field ''KICK'') \<noteq> Inr []"
  by code_simp

lemma keys_dict_set: "fst ` set (dict_set m k v) = insert k (fst ` set m)"
  by (induction m k v rule: dict_set.induct) auto

lemma dict_set_fresh: "k \<notin> fst ` set m \<Longrightarrow> dict_set m k v = m @ [(k, v)]"
  by (induction m k v rule: dict_set.induct) auto

lemma dict_set_not_Nil: "dict_set m k v \<noteq> []"
  by (cases m) (auto split: if_splits)

lemma loop_body_invalid:
  assumes "length (decode_name (slice (offset s) (offset s + SAMPLE_NAME_SIZE) data)) < 2"
  shows "loop_body data s =
           (if pad_index s > 0
            then Continue (s\<lparr>pad_index := pad_index s + 1, offset := offset s + PAD_ENTRY_SIZE\<rparr>)
            else Break s)"
  using assms by (simp add: loop_body_def Let_def)

lemma loop_body_valid:
  assumes "2 \<le> length (decode_name (slice (offset s) (offset s + SAMPLE_NAME_SIZE) data))"
  shows "loop_body data s =
           Continue (s\<lparr>pads := dict_set (pads s) (pad_index s)
                                 (decode_name (slice (offset s) (offset s + SAMPLE_NAME_SIZE) data)),
                       pad_index := pad_index s + 1,
                       offset := offset s + PAD_ENTRY_SIZE\<rparr>)"
proof -
  from assms have "decode_name (slice (offset s) (offset s + SAMPLE_NAME_SIZE) data) \<noteq> []"
    by auto
  with assms show ?thesis by (simp add: loop_body_def Let_def)
qed

lemma loop_body_Continue_cases:
  assumes "loop_body data s = Continue s'"
  shows "pad_index s' = pad_index s + 1 \<and> offset s' = offset s + PAD_ENTRY_SIZE
         \<and> (pads s' = pads s \<and> pad_index s > 0
            \<or> (\<exists>v. pads s' = dict_set (pads s) (pad_index s) v))"
  using assms by (auto simp: loop_body_def Let_def split: if_splits)

lemma loop_body_Break: "loop_body data s = Break s' \<Longrightarrow> s' = s"
  by (auto simp: loop_body_def Let_def split: if_splits)

lemma reachable_invariant:
  assumes "reachable data s"
  shows "offset s = FIRST_SAMPLE_OFFSET + PAD_ENTRY_SIZE * pad_index s
         \<and> (pads s = [] \<longleftrightarrow> pad_index s = 0)
         \<and> (\<forall>k \<in> fst ` set (pads s). k < pad_index s)"
  using assms
proof (induction rule: reachable.induct)
  case reachable_init
  show ?case by (simp add: initial_state_def)
next
  case (reachable_step s s')
  from loop_body_Continue_cases [OF reachable_step.hyps(3)]
  have i: "pad_index s' = pad_index s + 1" and o: "offset s' = offset s + PAD_ENTRY_SIZE"
    and p: "pads s' = pads s \<and> pad_index s > 0
            \<or> (\<exists>v. pads s' = dict_set (pads s) (pad_index s) v)"
    by simp_all
  from reachable_step.IH i o
  have 1: "offset s' = FIRST_SAMPLE_OFFSET + PAD_ENTRY_SIZE * pad_index s'" by simp
  from p have 2: "pads s' = [] \<longleftrightarrow> pad_index s' = 0"
  proof
    assume "pads s' = pads s \<and> pad_index s > 0"
    with reachable_step.IH i show ?thesis by simp
  next
    assume "\<exists>v. pads s' = dict_set (pads s) (pad_index s) v"
    then obtain v where "pads s' = dict_set (pads s) (pad_index s) v" ..
    then have "pads s' \<noteq> []" by (simp add: dict_set_not_Nil)
    moreover from i have "pad_index s' \<noteq> 0" by simp
    ultimately show ?thesis by simp
  qed
  from p have 3: "\<forall>k \<in> fst ` set (pads s'). k < pad_index s'"
  proof
    assume "pads s' = pads s \<and> pad_index s > 0"
    with reachable_step.IH i show ?thesis by auto
  next
    assume "\<exists>v. pads s' = dict_set (pads s) (pad_index s) v"
    then obtain v where "pads s' = dict_set (pads s) (pad_index s) v" ..
    then have "fst ` set (pads s') = insert (pad_index s) (fst ` set (pads s))"
      by (simp add: keys_dict_set)
    with reachable_step.IH i show ?thesis by auto
  qed
  from 1 2 3 show ?case by simp
qed

lemma scan_loop_keys:
  "fst ` set (pads (scan_loop data s)) \<subseteq> fst ` set (pads s) \<union> {k. pad_index s \<le> k}"
proof (induction data s rule: scan_loop.induct)
  case (1 data s)
  show ?case
  proof (cases "loop_cond data s")
    case False
    then show ?thesis by (simp add: scan_loop_stop)
  next
    case True
    show ?thesis
    proof (cases "loop_body data s")
      case (Break s')
      from loop_body_Break [OF Break] scan_loop_break [OF True Break] show ?thesis by simp
    next
      case (Continue s')
      from "1.IH" [OF True Continue]
      have ih: "fst ` set (pads (scan_loop data s')) \<subseteq> fst ` set (pads s') \<union> {k. pad_index s' \<le> k}" .
      from loop_body_Continue_cases [OF Continue]
      have i: "pad_index s' = pad_index s + 1"
        and p: "pads s' = pads s \<and> pad_index s > 0
            \<or> (\<exists>v. pads s' = dict_set (pads s) (pad_index s) v)" by simp_all
      from p have sub: "fst ` set (pads s') \<subseteq> insert (pad_index s) (fst ` set (pads s))"
      proof
        assume "pads s' = pads s \<and> pad_index s > 0"
        then show ?thesis by auto
      next
        assume "\<exists>v. pads s' = dict_set (pads s) (pad_index s) v"
        then obtain v where "pads s' = dict_set (pads s) (pad_index s) v" ..
        then show ?thesis by (simp add: keys_dict_set)
      qed
      have "fst ` set (pads (scan_loop data s')) \<subseteq> fst ` set (pads s) \<union> {k. pad_index s \<le> k}"
      proof
        fix k assume "k \<in> fst ` set (pads (scan_loop data s'))"
        with ih have "k \<in> fst ` set (pads s') \<or> pad_index s' \<le> k" by auto
        moreover have "k \<in> fst ` set (pads s) \<or> k = pad_index s" if "k \<in> fst ` set (pads s')"
          using that sub by auto
        ultimately have "k \<in> fst ` set (pads s) \<or> k = pad_index s \<or> pad_index s + 1 \<le> k"
          using i by metis
        then show "k \<in> fst ` set (pads s) \<union> {k. pad_index s \<le> k}" by auto
      qed
      with scan_loop_continue [OF True Continue] show ?thesis by simp
    qed
  qed
qed

lemma reachable_scan_loop:
  "reachable data s \<Longrightarrow> scan_loop data s = scan_loop data initial_state"
proof (induction rule: reachable.induct)
  case reachable_init
  show ?case by simp
next
  case (reachable_step s s')
  from scan_loop_continue [OF reachable_step.hyps(2,3)] reachable_step.IH
  show ?case by simp
qed

text \<open>
  Claim C5. At the head of the loop, in any state the scan can reach, let the record at the
  current offset have a decoded, trimmed name of fewer than two characters. The record ends the
  scan exactly when no pad has been recorded yet, which is exactly at the first record (pad
  index 0, offset 24); the scan then returns the empty pad map. Otherwise the record is
  skipped: the pad map is left as it is, the pad index grows by one and the offset by 164, and
  the final pad map has no entry at the skipped index.
\<close>

theorem invalid_record_break_or_skip:
  assumes "reachable data s" and "loop_cond data s"
    and "length (decode_name (slice (offset s) (offset s + SAMPLE_NAME_SIZE) data)) < 2"
  shows "((\<exists>s'. loop_body data s = Break s') \<longleftrightarrow> pads s = [])
       \<and> (pads s = [] \<longleftrightarrow> pad_index s = 0 \<and> offset s = FIRST_SAMPLE_OFFSET)
       \<and> (pads s = [] \<longrightarrow> scan_loop data s = s \<and> pads (scan_loop data initial_state) = [])
       \<and> (pads s \<noteq> [] \<longrightarrow>
            loop_body data s
              = Continue (s\<lparr>pad_index := pad_index s + 1, offset := offset s + PAD_ENTRY_SIZE\<rparr>)
            \<and> pad_index s \<notin> fst ` set (pads (scan_loop data initial_state)))"
proof -
  note inv = reachable_invariant [OF assms(1)]
  note body = loop_body_invalid [OF assms(3)]
  from inv have z: "pads s = [] \<longleftrightarrow> pad_index s = 0" by simp
  have 1: "(\<exists>s'. loop_body data s = Break s') \<longleftrightarrow> pads s = []"
    using body z by auto
  have 2: "pads s = [] \<longleftrightarrow> pad_index s = 0 \<and> offset s = FIRST_SAMPLE_OFFSET"
    using inv by auto
  have 3: "scan_loop data s = s \<and> pads (scan_loop data initial_state) = []" if e: "pads s = []"
  proof -
    from e z body have "loop_body data s = Break s" by simp
    with assms(2) have "scan_loop data s = s" by (rule scan_loop_break)
    with reachable_scan_loop [OF assms(1)] e show ?thesis by simp
  qed
  have 4: "loop_body data s
              = Continue (s\<lparr>pad_index := pad_index s + 1, offset := offset s + PAD_ENTRY_SIZE\<rparr>)
            \<and> pad_index s \<notin> fst ` set (pads (scan_loop data initial_state))" if ne: "pads s \<noteq> []"
  proof -
    let ?s' = "s\<lparr>pad_index := pad_index s + 1, offset := offset s + PAD_ENTRY_SIZE\<rparr>"
    from ne z body have c: "loop_body data s = Continue ?s'" by simp
    with assms(2) have "scan_loop data s = scan_loop data ?s'" by (rule scan_loop_continue)
    with reachable_scan_loop [OF assms(1)]
    have "scan_loop data initial_state = scan_loop data ?s'" by simp
    moreover have "fst ` set (pads (scan_loop data ?s')) \<subseteq> fst ` set (pads ?s') \<union> {k. pad_index ?s' \<le> k}"
      by (rule scan_loop_keys)
    moreover have "pad_index s \<notin> fst ` set (pads ?s') \<union> {k. pad_index ?s' \<le> k}"
      using inv by auto
    ultimately show ?thesis using c by auto
  qed
  from 1 2 3 4 show ?thesis by blast
qed

theorem invalid_record_break_or_skip_witness:
  "reachable gap_pgm after_first \<and> loop_cond gap_pgm after_first
   \<and> decode_name (slice (offset after_first) (offset after_first + SAMPLE_NAME_SIZE) gap_pgm) = []
   \<and> loop_body gap_pgm after_first
        = Continue \<lparr>pads = [(0, ''KICK'')], pad_index = 2, offset = 352\<rparr>
   \<and> 1 \<notin> fst ` set (pads (scan_loop gap_pgm initial_state))
   \<and> parse_pgm_file gap_pgm = Inr [(0, ''KICK''), (2, ''HAT'')]
   \<and> reachable short_first_pgm initial_state \<and> loop_cond short_first_pgm initial_state
   \<and> decode_name (slice (offset initial_state) (offset initial_state + SAMPLE_NAME_SIZE)
        short_first_pgm) = ''K''
   \<and> scan_loop short_first_pgm initial_state = initial_state
   \<and> parse_pgm_file short_first_pgm = Inr []"
proof -
  have c0: "loop_cond gap_pgm initial_state" by code_simp
  have b0: "loop_body gap_pgm initial_state = Continue after_first" by code_simp
  have r: "reachable gap_pgm after_first" using reachable_init c0 b0 by (rule reachable_step)
  have c: "loop_cond gap_pgm after_first" by code_simp
  have d: "decode_name (slice (offset after_first) (offset after_first + SAMPLE_NAME_SIZE) gap_pgm) = []"
    by code_simp
  then have l: "length (decode_name (slice (offset after_first) (offset after_first + SAMPLE_NAME_SIZE) gap_pgm)) < 2"
    by simp
  have ne: "pads after_first \<noteq> []" by (simp add: after_first_def)
  have u: "after_first\<lparr>pad_index := pad_index after_first + 1,
                         offset := offset after_first + PAD_ENTRY_SIZE\<rparr>
             = \<lparr>pads = [(0, ''KICK'')], pad_index = 2, offset = 352\<rparr>"
    by (simp add: after_first_def)
  from invalid_record_break_or_skip [OF r c l] ne u
  have 1: "loop_body gap_pgm after_first
        = Continue \<lparr>pads = [(0, ''KICK'')], pad_index = 2, offset = 352\<rparr>
     \<and> 1 \<notin> fst ` set (pads (scan_loop gap_pgm initial_state))"
    by (simp add: after_first_def)
  have p: "parse_pgm_file gap_pgm = Inr [(0, ''KICK''), (2, ''HAT'')]" by code_simp
  have r': "reachable short_first_pgm initial_state" by (rule reachable_init)
  have c': "loop_cond short_first_pgm initial_state" by code_simp
  have d': "decode_name (slice (offset initial_state) (offset initial_state + SAMPLE_NAME_SIZE)
        short_first_pgm) = ''K''" by code_simp
  then have l': "length (decode_name (slice (offset initial_state)
        (offset initial_state + SAMPLE_NAME_SIZE) short_first_pgm)) < 2" by simp
  have e: "pads initial_state = []" by (simp add: initial_state_def)
  from invalid_record_break_or_skip [OF r' c' l'] e
  have 2: "scan_loop short_first_pgm initial_state = initial_state" by blast
  have p': "parse_pgm_file short_first_pgm = Inr []" by code_simp
  from r c d 1 p r' c' d' 2 p' show ?thesis by simp
qed

lemma clean_name_printables:
  "list_all printable n \<Longrightarrow> clean_name acc (map ord n @ zs) = clean_name (acc @ n) zs"
proof (induction n arbitrary: acc)
  case Nil
  show ?case by simp
next
  case (Cons c n)
  from Cons.prems have p: "printable c" and r: "list_all printable n" by simp_all
  from ord_printable [OF p] Cons.IH [OF r, of "acc @ [c]"] show ?case
    by (simp add: chr_ord)
qed

lemma clean_name_zeros: "clean_name acc (replicate j 0) = acc"
  by (cases j) simp_all

lemma decode_name_name_field:
  assumes "well_formed_name n"
  shows "decode_name (name_field n) = n"
proof -
  from assms have p: "list_all printable n" and ne: "n \<noteq> []"
    and e: "\<not> py_isspace (hd n)" "\<not> py_isspace (last n)"
    by (auto simp: well_formed_name_def)
  have "clean_name [] (name_field n) = n"
    by (simp add: name_field_def clean_name_printables [OF p] clean_name_zeros)
  with py_strip_id [OF ne e] show ?thesis by (simp add: decode_name_def)
qed

lemma length_name_field: "length n \<le> SAMPLE_NAME_SIZE \<Longrightarrow> length (name_field n) = SAMPLE_NAME_SIZE"
  by (simp add: name_field_def)

lemma slice_full_length: "length (slice a (a + m) xs) = m \<Longrightarrow> m > 0 \<Longrightarrow> a + m \<le> length xs"
  by (auto simp: slice_def min_def split: if_splits)

lemma scan_records:
  assumes hr: "has_records data names" and wf: "list_all well_formed_name names"
  shows "k \<le> min (length names) 64 \<Longrightarrow> pad_index s = k
         \<Longrightarrow> offset s = FIRST_SAMPLE_OFFSET + PAD_ENTRY_SIZE * k
         \<Longrightarrow> \<forall>j \<in> fst ` set (pads s). j < k
         \<Longrightarrow> pads (scan_loop data s) = pads s @ zip [k..<min (length names) 64] (drop k names)"
proof (induction "min (length names) 64 - k" arbitrary: k s)
  case 0
  then have k: "k = min (length names) 64" by simp
  have "\<not> loop_cond data s"
  proof (cases "length names < 64")
    case True
    with k have "k = length names" by simp
    with hr 0 show ?thesis by (simp add: loop_cond_def has_records_def)
  next
    case False
    with k have "k = 64" by simp
    with 0 show ?thesis by (simp add: loop_cond_def)
  qed
  then have "scan_loop data s = s" by (rule scan_loop_stop)
  with k show ?case by simp
next
  case (Suc d)
  let ?M = "min (length names) 64"
  from Suc.hyps(2) have kM: "k < ?M" by linarith
  then have kn: "k < length names" and k64: "k < 64" by simp_all
  let ?n = "names ! k"
  from wf kn have wfn: "well_formed_name ?n" by (simp add: list_all_length)
  from hr kn Suc.prems(3)
  have fld: "slice (offset s) (offset s + SAMPLE_NAME_SIZE) data = name_field ?n"
    by (simp add: has_records_def)
  from wfn have "length (name_field ?n) = SAMPLE_NAME_SIZE"
    by (simp add: length_name_field well_formed_name_def)
  with fld have "length (slice (offset s) (offset s + SAMPLE_NAME_SIZE) data) = SAMPLE_NAME_SIZE"
    by simp
  then have "offset s + SAMPLE_NAME_SIZE \<le> length data" by (rule slice_full_length) simp
  with k64 Suc.prems(2) have cond: "loop_cond data s" by (simp add: loop_cond_def)
  have dec: "decode_name (slice (offset s) (offset s + SAMPLE_NAME_SIZE) data) = ?n"
    by (simp add: fld decode_name_name_field [OF wfn])
  from wfn have "2 \<le> length ?n" by (simp add: well_formed_name_def)
  with dec have "2 \<le> length (decode_name (slice (offset s) (offset s + SAMPLE_NAME_SIZE) data))"
    by simp
  from loop_body_valid [OF this] dec
  have body: "loop_body data s =
           Continue (s\<lparr>pads := dict_set (pads s) (pad_index s) ?n,
                       pad_index := pad_index s + 1,
                       offset := offset s + PAD_ENTRY_SIZE\<rparr>)" by simp
  let ?s' = "s\<lparr>pads := dict_set (pads s) (pad_index s) ?n,
                       pad_index := pad_index s + 1,
                       offset := offset s + PAD_ENTRY_SIZE\<rparr>"
  from Suc.prems(4) have "k \<notin> fst ` set (pads s)" by auto
  with Suc.prems(2) have ds: "dict_set (pads s) (pad_index s) ?n = pads s @ [(k, ?n)]"
    by (simp add: dict_set_fresh)
  have 1: "d = ?M - Suc k" using Suc.hyps(2) by simp
  have 2: "Suc k \<le> ?M" using kM by simp
  have 3: "pad_index ?s' = Suc k" using Suc.prems(2) by simp
  have 4: "offset ?s' = FIRST_SAMPLE_OFFSET + PAD_ENTRY_SIZE * Suc k" using Suc.prems(3) by simp
  have 5: "\<forall>j \<in> fst ` set (pads ?s'). j < Suc k"
    using Suc.prems(4) by (auto simp: ds)
  from Suc.hyps(1) [OF 1 2 3 4 5]
  have "pads (scan_loop data ?s') = pads ?s' @ zip [Suc k..<?M] (drop (Suc k) names)" .
  moreover have "zip [k..<?M] (drop k names) = (k, ?n) # zip [Suc k..<?M] (drop (Suc k) names)"
    using kM kn by (simp add: upt_conv_Cons Cons_nth_drop_Suc [symmetric])
  ultimately have "pads (scan_loop data ?s') = pads s @ zip [k..<?M] (drop k names)"
    by (simp add: ds)
  with scan_loop_continue [OF cond body] show ?case by simp
qed

lemma drop_concat_blocks:
  "\<forall>x \<in> set xs. length (f x) = m \<Longrightarrow> i \<le> length xs \<Longrightarrow>
     drop (m * i) (concat (map f xs)) = concat (map f (drop i xs))"
proof (induction xs arbitrary: i)
  case Nil
  then show ?case by simp
next
  case (Cons x xs)
  show ?case
  proof (cases i)
    case 0
    then show ?thesis by simp
  next
    case (Suc j)
    with Cons.prems have j: "j \<le> length xs" by simp
    from Cons.prems(1) have r: "\<forall>x \<in> set xs. length (f x) = m" by simp
    from Cons.IH [OF r j] Cons.prems(1) Suc show ?thesis by simp
  qed
qed

lemma length_concat_blocks:
  "\<forall>x \<in> set xs. length (f x) = m \<Longrightarrow> length (concat (map f xs)) = m * length xs"
  by (induction xs) simp_all

lemma length_pgm_record: "length n \<le> SAMPLE_NAME_SIZE \<Longrightarrow> length (pgm_record n) = PAD_ENTRY_SIZE"
  by (simp add: pgm_record_def name_field_def)

lemma length_pgm_header: "length pgm_header = FIRST_SAMPLE_OFFSET"
  by (simp add: pgm_header_def)

lemma has_magic_build_pgm: "has_magic (build_pgm names)"
proof -
  have "slice 4 20 (build_pgm names) = map ord ''MPC1000 PGM 1.00''"
    by (simp add: build_pgm_def pgm_header_def slice_def)
  moreover have "sublist MAGIC (decode_ascii_ignore (map ord ''MPC1000 PGM 1.00''))"
    by code_simp
  ultimately show ?thesis by (simp add: has_magic_def)
qed

lemma has_records_build_pgm:
  assumes "list_all well_formed_name names"
  shows "has_records (build_pgm names) names"
proof -
  from assms have len: "\<forall>n \<in> set names. length (pgm_record n) = PAD_ENTRY_SIZE"
    by (auto simp: list_all_iff well_formed_name_def length_pgm_record)
  have fld: "slice (FIRST_SAMPLE_OFFSET + PAD_ENTRY_SIZE * i)
               (FIRST_SAMPLE_OFFSET + PAD_ENTRY_SIZE * i + SAMPLE_NAME_SIZE) (build_pgm names)
           = name_field (names ! i)" if i: "i < length names" for i
  proof -
    from i have il: "i \<le> length names" by simp
    from assms i have "length (names ! i) \<le> SAMPLE_NAME_SIZE"
      by (simp add: list_all_length well_formed_name_def)
    then have l16: "length (name_field (names ! i)) = SAMPLE_NAME_SIZE" by (rule length_name_field)
    have "drop (FIRST_SAMPLE_OFFSET + PAD_ENTRY_SIZE * i) (build_pgm names)
            = drop (PAD_ENTRY_SIZE * i) (concat (map pgm_record names))"
      by (simp add: build_pgm_def length_pgm_header)
    also have "\<dots> = concat (map pgm_record (drop i names))"
      using len il by (rule drop_concat_blocks)
    also have "drop i names = names ! i # drop (Suc i) names"
      using i by (simp add: Cons_nth_drop_Suc)
    finally have d: "drop (FIRST_SAMPLE_OFFSET + PAD_ENTRY_SIZE * i) (build_pgm names)
            = pgm_record (names ! i) @ concat (map pgm_record (drop (Suc i) names))"
      by simp
    show ?thesis by (simp add: slice_def d pgm_record_def [of "names ! i"] l16)
  qed
  have "length (build_pgm names) = FIRST_SAMPLE_OFFSET + PAD_ENTRY_SIZE * length names"
    using length_concat_blocks [OF len] by (simp add: build_pgm_def length_pgm_header)
  with fld show ?thesis by (simp add: has_records_def)
qed

lemma parse_records:
  assumes "has_magic data" "has_records data names" "list_all well_formed_name names"
  shows "parse_pgm_file data = Inr (zip [0..<min (length names) 64] names)"
proof -
  have "pads (scan_loop data initial_state)
          = pads initial_state @ zip [0..<min (length names) 64] (drop 0 names)"
    by (rule scan_records [OF assms(2,3)]) (simp_all add: initial_state_def)
  with assms(1) show ?thesis by (simp add: parse_pgm_file_magic initial_state_def)
qed

lemma zip_upt_names:
  "length names \<le> 64 \<Longrightarrow>
     length (zip [0..<min (length names) 64] names) = length names
     \<and> map fst (zip [0..<min (length names) 64] names) = [0..<length names]
     \<and> map snd (zip [0..<min (length names) 64] names) = names"
  by (simp add: min_def)

text \<open>
  Claim C1, amended. Let the names be well formed: 2 to 16 printable ASCII characters with no
  white space at either end. A buffer with a valid magic header that holds their zero-padded
  name fields at the offsets 24, 188, ... and ends before a further name field fits parses to
  the pad map of the first \<open>min N 64\<close> names, in order, under the keys \<open>0, 1, ...\<close>;
  so does the synthetic descriptor built from the names (round trip). For \<open>N \<le> 64\<close> the
  pad map has size \<open>N\<close>, its keys are \<open>0..N-1\<close> and its values are the names.
\<close>

theorem parse_pgm_file_roundtrip:
  assumes "list_all well_formed_name names"
  shows "(has_magic data \<and> has_records data names \<longrightarrow>
            parse_pgm_file data = Inr (zip [0..<min (length names) 64] names))
       \<and> parse_pgm_file (build_pgm names) = Inr (zip [0..<min (length names) 64] names)
       \<and> (length names \<le> 64 \<longrightarrow>
            length (zip [0..<min (length names) 64] names) = length names
            \<and> map fst (zip [0..<min (length names) 64] names) = [0..<length names]
            \<and> map snd (zip [0..<min (length names) 64] names) = names)"
proof -
  have 1: "parse_pgm_file data = Inr (zip [0..<min (length names) 64] names)"
    if "has_magic data" "has_records data names"
    using that assms by (rule parse_records)
  have 2: "parse_pgm_file (build_pgm names) = Inr (zip [0..<min (length names) 64] names)"
    using has_magic_build_pgm has_records_build_pgm [OF assms] assms by (rule parse_records)
  from 1 2 zip_upt_names [of names] show ?thesis by blast
qed

theorem parse_pgm_file_roundtrip_witness:
  "list_all well_formed_name drum_names
   \<and> parse_pgm_file (build_pgm drum_names) = Inr [(0, ''KICK''), (1, ''Snare 01''), (2, ''HH_closed'')]"
proof -
  have w: "list_all well_formed_name drum_names" by code_simp
  have z: "zip [0..<min (length drum_names) 64] drum_names
             = [(0, ''KICK''), (1, ''Snare 01''), (2, ''HH_closed'')]" by code_simp
  from parse_pgm_file_roundtrip [OF w] z w show ?thesis by simp
qed

text \<open>
  Printable names of length 2 and more that are not recovered: a trailing blank is stripped,
  a name that strips to one character ends the scan, and of 65 records only 64 are kept.
\<close>

theorem parse_pgm_file_roundtrip_counterexample:
  "list_all printable ''AB '' \<and> 2 \<le> length ''AB ''
   \<and> parse_pgm_file (build_pgm [''AB '']) = Inr [(0, ''AB'')]
   \<and> parse_pgm_file (build_pgm [''AB '']) \<noteq> Inr [(0, ''AB '')]
   \<and> list_all printable '' A'' \<and> 2 \<le> length '' A''
   \<and> parse_pgm_file (build_pgm ['' A'']) = Inr []
   \<and> (case parse_pgm_file (build_pgm (replicate 65 ''AB'')) of Inr m \<Rightarrow> length m = 64 | Inl e \<Rightarrow> False)"
proof -
  have 1: "list_all printable ''AB '' \<and> 2 \<le> length ''AB ''
   \<and> parse_pgm_file (build_pgm [''AB '']) = Inr [(0, ''AB'')]
   \<and> parse_pgm_file (build_pgm [''AB '']) \<noteq> Inr [(0, ''AB '')]
   \<and> list_all printable '' A'' \<and> 2 \<le> length '' A''
   \<and> parse_pgm_file (build_pgm ['' A'']) = Inr []" by code_simp
  have w: "list_all well_formed_name (replicate 65 ''AB'')" by code_simp
  have "parse_pgm_file (build_pgm (replicate 65 ''AB''))
          = Inr (zip [0..<min (length (replicate 65 ''AB'')) 64] (replicate 65 ''AB''))"
    using has_magic_build_pgm has_records_build_pgm [OF w] w by (rule parse_records)
  then have 2: "(case parse_pgm_file (build_pgm (replicate 65 ''AB'')) of Inr m \<Rightarrow> length m = 64 | Inl e \<Rightarrow> False)"
    by simp
  from 1 2 show ?thesis by simp
qed

section \<open>Properties of the bank organizer\<close>

lemma pad_loop_append:
  "pad_loop fs P d b (xs @ ys) =
     (case pad_loop fs P d b xs of
        (evs, Inl e) \<Rightarrow> (evs, Inl e)
      | (evs, Inr u) \<Rightarrow> (case pad_loop fs P d b ys of (evs', r) \<Rightarrow> (evs @ evs', r)))"
  by (induction xs) (auto split: prod.splits sum.splits)

lemma bank_loop_append:
  "bank_loop fs P out (xs @ ys) =
     (case bank_loop fs P out xs of
        (evs, Inl e) \<Rightarrow> (evs, Inl e)
      | (evs, Inr u) \<Rightarrow> (case bank_loop fs P out ys of (evs', r) \<Rightarrow> (evs @ evs', r)))"
proof (induction xs)
  case Nil
  show ?case by (simp split: prod.splits)
next
  case (Cons x xs)
  obtain b c where x: "x = (b, c)" by (cases x)
  show ?case unfolding x using Cons.IH
    by (auto simp: Let_def split: prod.splits sum.splits)
qed

lemma banks_split:
  "bank_idx < 8 \<Longrightarrow>
     enumerate 0 bank_names
       = take bank_idx (enumerate 0 bank_names) @ (bank_idx, bank_names ! bank_idx)
           # drop (Suc bank_idx) (enumerate 0 bank_names)"
proof -
  assume b: "bank_idx < 8"
  have l0: "length bank_names = 8" by (simp add: bank_names_def)
  then have l: "length (enumerate 0 bank_names) = 8" by simp
  from b l0 have "enumerate 0 bank_names ! bank_idx = (bank_idx, bank_names ! bank_idx)"
    by (simp add: nth_enumerate_eq)
  with b l id_take_nth_drop [of bank_idx "enumerate 0 bank_names"] show ?thesis by simp
qed

lemma pads_split: "p < 8 \<Longrightarrow> [0..<8] = [0..<p] @ p # [Suc p..<8]"
  by (metis upt_conv_Cons upt_add_eq_append le_add_diff_inverse less_imp_le_nat zero_le)

lemma run_from_pad:
  assumes parse: "parse_pgm_file data = Inr pads_found"
    and b: "bank_idx < 8" and p: "pad_in_bank < 8"
    and banks: "bank_loop fs pads_found output_dir (take bank_idx (enumerate 0 bank_names))
                  = (evs_banks, Inr ())"
    and mk: "\<not> mkdir_fails fs (output_dir @ [''Bank_'' @ [bank_names ! bank_idx]])"
    and pads: "pad_loop fs pads_found (output_dir @ [''Bank_'' @ [bank_names ! bank_idx]]) bank_idx
                  [0..<pad_in_bank] = (evs_pads, Inr ())"
  shows "create_sp303_banks fs data output_dir =
           (case organize_pad fs pads_found (output_dir @ [''Bank_'' @ [bank_names ! bank_idx]])
                   bank_idx pad_in_bank of
              (evs, Inl e) \<Rightarrow>
                (evs_banks @ MkDir (output_dir @ [''Bank_'' @ [bank_names ! bank_idx]]) # evs_pads @ evs,
                 Inl e)
            | (evs, Inr u) \<Rightarrow>
                (evs_banks @ MkDir (output_dir @ [''Bank_'' @ [bank_names ! bank_idx]]) # evs_pads @ evs
                   @ fst (rest_of_run fs pads_found output_dir bank_idx pad_in_bank),
                 snd (rest_of_run fs pads_found output_dir bank_idx pad_in_bank)))"
proof -
  let ?dir = "output_dir @ [''Bank_'' @ [bank_names ! bank_idx]]"
  let ?rest_banks = "drop (Suc bank_idx) (enumerate 0 bank_names)"
  have pl: "pad_loop fs pads_found ?dir bank_idx [0..<8] =
          (case organize_pad fs pads_found ?dir bank_idx pad_in_bank of
             (evs, Inl e) \<Rightarrow> (evs_pads @ evs, Inl e)
           | (evs, Inr u) \<Rightarrow>
               (case pad_loop fs pads_found ?dir bank_idx [Suc pad_in_bank..<8] of
                  (evs', r) \<Rightarrow> (evs_pads @ evs @ evs', r)))"
    unfolding pads_split [OF p] pad_loop_append pads
    by (simp split: prod.splits sum.splits)
  have cr: "create_sp303_banks fs data output_dir
          = (case bank_loop fs pads_found output_dir ((bank_idx, bank_names ! bank_idx) # ?rest_banks) of
               (evs', r) \<Rightarrow> (evs_banks @ evs', r))"
  proof -
    have "create_sp303_banks fs data output_dir
          = bank_loop fs pads_found output_dir
              (take bank_idx (enumerate 0 bank_names) @ (bank_idx, bank_names ! bank_idx) # ?rest_banks)"
      using banks_split [OF b] parse by (simp add: create_sp303_banks_def)
    also have "\<dots> = (case bank_loop fs pads_found output_dir ((bank_idx, bank_names ! bank_idx) # ?rest_banks) of
                      (evs', r) \<Rightarrow> (evs_banks @ evs', r))"
      unfolding bank_loop_append banks by simp
    finally show ?thesis .
  qed
  obtain evs res where op: "organize_pad fs pads_found ?dir bank_idx pad_in_bank = (evs, res)"
    by (cases "organize_pad fs pads_found ?dir bank_idx pad_in_bank")
  show ?thesis
  proof (cases res)
    case (Inl e)
    with pl op have "pad_loop fs pads_found ?dir bank_idx [0..<8] = (evs_pads @ evs, Inl e)"
      by simp
    with mk have "bank_loop fs pads_found output_dir ((bank_idx, bank_names ! bank_idx) # ?rest_banks)
            = (MkDir ?dir # evs_pads @ evs, Inl e)"
      by simp
    with cr op Inl show ?thesis by simp
  next
    case (Inr u)
    obtain e1 r1 where p1: "pad_loop fs pads_found ?dir bank_idx [Suc pad_in_bank..<8] = (e1, r1)"
      by (cases "pad_loop fs pads_found ?dir bank_idx [Suc pad_in_bank..<8]")
    with pl op Inr
    have p8: "pad_loop fs pads_found ?dir bank_idx [0..<8] = (evs_pads @ evs @ e1, r1)"
      by simp
    show ?thesis
    proof (cases r1)
      case (Inl e)
      with p8 mk have "bank_loop fs pads_found output_dir ((bank_idx, bank_names ! bank_idx) # ?rest_banks)
            = (MkDir ?dir # evs_pads @ evs @ e1, Inl e)"
        by simp
      moreover from p1 Inl have "rest_of_run fs pads_found output_dir bank_idx pad_in_bank = (e1, Inl e)"
        by (simp add: rest_of_run_def)
      ultimately show ?thesis using cr op \<open>res = Inr u\<close> by simp
    next
      case r: (Inr u')
      obtain e2 r2 where b2: "bank_loop fs pads_found output_dir ?rest_banks = (e2, r2)"
        by (cases "bank_loop fs pads_found output_dir ?rest_banks")
      with p8 r mk have "bank_loop fs pads_found output_dir ((bank_idx, bank_names ! bank_idx) # ?rest_banks)
            = (MkDir ?dir # (evs_pads @ evs @ e1) @ e2, r2)"
        by simp
      moreover from p1 r b2 have "rest_of_run fs pads_found output_dir bank_idx pad_in_bank = (e1 @ e2, r2)"
        by (simp add: rest_of_run_def)
      ultimately show ?thesis using cr op \<open>res = Inr u\<close> by simp
    qed
  qed
qed

text \<open>
  Claim C8, amended. Let the run reach the pad \<open>pad_in_bank\<close> of the bank \<open>bank_idx\<close>
  (the earlier banks and the earlier pads of this bank went through, the bank directory was
  made), and let the pad have a sample name. If no file matches the name, the missing file is
  reported and the run goes on with the remaining pads and banks. If a file matches and its copy
  succeeds, the run goes on likewise. If the copy fails, the failure is not caught: the run ends
  with this error, and no later pad or bank is processed.
\<close>

theorem copy_failure_aborts_batch:
  assumes "parse_pgm_file data = Inr pads_found"
    and "bank_idx < 8" and "pad_in_bank < 8"
    and "map_of pads_found (bank_idx * 8 + pad_in_bank) = Some sample_name"
    and "bank_loop fs pads_found output_dir (take bank_idx (enumerate 0 bank_names))
           = (evs_banks, Inr ())"
    and "\<not> mkdir_fails fs (output_dir @ [''Bank_'' @ [bank_names ! bank_idx]])"
    and "pad_loop fs pads_found (output_dir @ [''Bank_'' @ [bank_names ! bank_idx]]) bank_idx
           [0..<pad_in_bank] = (evs_pads, Inr ())"
  shows "(find_wav_file fs sample_name = None \<longrightarrow>
            create_sp303_banks fs data output_dir
              = (evs_banks @ MkDir (output_dir @ [''Bank_'' @ [bank_names ! bank_idx]]) # evs_pads
                   @ NotFound (pad_in_bank + 1) sample_name
                   # fst (rest_of_run fs pads_found output_dir bank_idx pad_in_bank),
                 snd (rest_of_run fs pads_found output_dir bank_idx pad_in_bank)))
       \<and> (\<forall>wav_file. find_wav_file fs sample_name = Some wav_file \<longrightarrow>
            (copy_fails fs wav_file
                 (dest_path (output_dir @ [''Bank_'' @ [bank_names ! bank_idx]]) pad_in_bank) \<longrightarrow>
               create_sp303_banks fs data output_dir
                 = (evs_banks @ MkDir (output_dir @ [''Bank_'' @ [bank_names ! bank_idx]]) # evs_pads,
                    Inl (OSError
                      (dest_path (output_dir @ [''Bank_'' @ [bank_names ! bank_idx]]) pad_in_bank))))
            \<and> (\<not> copy_fails fs wav_file
                 (dest_path (output_dir @ [''Bank_'' @ [bank_names ! bank_idx]]) pad_in_bank) \<longrightarrow>
               create_sp303_banks fs data output_dir
                 = (evs_banks @ MkDir (output_dir @ [''Bank_'' @ [bank_names ! bank_idx]]) # evs_pads
                      @ Copied wav_file
                          (dest_path (output_dir @ [''Bank_'' @ [bank_names ! bank_idx]]) pad_in_bank)
                      # fst (rest_of_run fs pads_found output_dir bank_idx pad_in_bank),
                    snd (rest_of_run fs pads_found output_dir bank_idx pad_in_bank))))"
proof -
  note run = run_from_pad [OF assms(1,2,3,5,6,7)]
  let ?dir = "output_dir @ [''Bank_'' @ [bank_names ! bank_idx]]"
  have nf: "organize_pad fs pads_found ?dir bank_idx pad_in_bank
              = ([NotFound (pad_in_bank + 1) sample_name], Inr ())"
    if "find_wav_file fs sample_name = None"
    using that assms(4) by (simp add: organize_pad_def)
  have cf: "organize_pad fs pads_found ?dir bank_idx pad_in_bank
              = ([], Inl (OSError (dest_path ?dir pad_in_bank)))"
    if "find_wav_file fs sample_name = Some wav_file"
       "copy_fails fs wav_file (dest_path ?dir pad_in_bank)" for wav_file
    using that assms(4) by (simp add: organize_pad_def)
  have ok: "organize_pad fs pads_found ?dir bank_idx pad_in_bank
              = ([Copied wav_file (dest_path ?dir pad_in_bank)], Inr ())"
    if "find_wav_file fs sample_name = Some wav_file"
       "\<not> copy_fails fs wav_file (dest_path ?dir pad_in_bank)" for wav_file
    using that assms(4) by (simp add: organize_pad_def)
  show ?thesis
  proof (intro conjI impI allI)
    assume "find_wav_file fs sample_name = None"
    from run nf [OF this] show "create_sp303_banks fs data output_dir
              = (evs_banks @ MkDir ?dir # evs_pads
                   @ NotFound (pad_in_bank + 1) sample_name
                   # fst (rest_of_run fs pads_found output_dir bank_idx pad_in_bank),
                 snd (rest_of_run fs pads_found output_dir bank_idx pad_in_bank))"
      by simp
  next
    fix wav_file
    assume "find_wav_file fs sample_name = Some wav_file"
      and "copy_fails fs wav_file (dest_path ?dir pad_in_bank)"
    from run cf [OF this] show "create_sp303_banks fs data output_dir
                 = (evs_banks @ MkDir ?dir # evs_pads, Inl (OSError (dest_path ?dir pad_in_bank)))"
      by simp
  next
    fix wav_file
    assume "find_wav_file fs sample_name = Some wav_file"
      and "\<not> copy_fails fs wav_file (dest_path ?dir pad_in_bank)"
    from run ok [OF this] show "create_sp303_banks fs data output_dir
                 = (evs_banks @ MkDir ?dir # evs_pads
                      @ Copied wav_file (dest_path ?dir pad_in_bank)
                      # fst (rest_of_run fs pads_found output_dir bank_idx pad_in_bank),
                    snd (rest_of_run fs pads_found output_dir bank_idx pad_in_bank))"
      by simp
  qed
qed

theorem copy_failure_aborts_batch_witness:
  "create_sp303_banks snare_failing_fs two_pads_pgm [''out'']
     = ([MkDir [''out'', ''Bank_A''], Copied ''KICK.wav'' [''out'', ''Bank_A'', ''SMPL0001.WAV'']],
        Inl (OSError [''out'', ''Bank_A'', ''SMPL0002.WAV'']))
   \<and> find_wav_file snare_missing_fs ''SNARE'' = None
   \<and> create_sp303_banks snare_missing_fs two_pads_pgm [''out'']
     = ([MkDir [''out'', ''Bank_A''], Copied ''KICK.wav'' [''out'', ''Bank_A'', ''SMPL0001.WAV''],
         NotFound 2 ''SNARE'']
          @ fst (rest_of_run snare_missing_fs [(0, ''KICK''), (1, ''SNARE'')] [''out''] 0 1),
        Inr ())"
proof -
  let ?P = "[(0::nat, ''KICK''), (1, ''SNARE'')]"
  have parse: "parse_pgm_file two_pads_pgm = Inr ?P" by code_simp
  have b: "(0::nat) < 8" and p: "(1::nat) < 8" by simp_all
  have m: "map_of ?P (0 * 8 + 1) = Some ''SNARE''" by simp
  have bn: "bank_names ! 0 = CHR ''A''" by (simp add: bank_names_def)
  have dir: "[''out''] @ [''Bank_'' @ [bank_names ! 0]] = [''out'', ''Bank_A'']"
    by (simp add: bank_names_def)
  have dest: "dest_path [''out'', ''Bank_A''] 1 = [''out'', ''Bank_A'', ''SMPL0002.WAV'']"
    by code_simp
  have bl: "bank_loop fs ?P [''out''] (take 0 (enumerate 0 bank_names)) = ([], Inr ())" for fs
    by simp
  have mk1: "\<not> mkdir_fails snare_failing_fs ([''out''] @ [''Bank_'' @ [bank_names ! 0]])"
    by (simp add: snare_failing_fs_def failing_fs_def)
  have mk2: "\<not> mkdir_fails snare_missing_fs ([''out''] @ [''Bank_'' @ [bank_names ! 0]])"
    by (simp add: snare_missing_fs_def)
  have pl1: "pad_loop snare_failing_fs ?P ([''out''] @ [''Bank_'' @ [bank_names ! 0]]) 0 [0..<1]
          = ([Copied ''KICK.wav'' [''out'', ''Bank_A'', ''SMPL0001.WAV'']], Inr ())"
    by code_simp
  have pl2: "pad_loop snare_missing_fs ?P ([''out''] @ [''Bank_'' @ [bank_names ! 0]]) 0 [0..<1]
          = ([Copied ''KICK.wav'' [''out'', ''Bank_A'', ''SMPL0001.WAV'']], Inr ())"
    by code_simp
  have f1: "find_wav_file snare_failing_fs ''SNARE'' = Some ''SNARE.wav''" by code_simp
  have c1: "copy_fails snare_failing_fs ''SNARE.wav''
              (dest_path ([''out''] @ [''Bank_'' @ [bank_names ! 0]]) 1)"
    by (simp add: snare_failing_fs_def)
  have f2: "find_wav_file snare_missing_fs ''SNARE'' = None" by code_simp
  have r2: "snd (rest_of_run snare_missing_fs ?P [''out''] 0 1) = Inr ()" by code_simp
  from copy_failure_aborts_batch [OF parse b p m bl mk1 pl1] f1 c1
  have "create_sp303_banks snare_failing_fs two_pads_pgm [''out'']
     = ([] @ MkDir ([''out''] @ [''Bank_'' @ [bank_names ! 0]])
          # [Copied ''KICK.wav'' [''out'', ''Bank_A'', ''SMPL0001.WAV'']],
        Inl (OSError (dest_path ([''out''] @ [''Bank_'' @ [bank_names ! 0]]) 1)))"
    by blast
  then have 1: "create_sp303_banks snare_failing_fs two_pads_pgm [''out'']
     = ([MkDir [''out'', ''Bank_A''], Copied ''KICK.wav'' [''out'', ''Bank_A'', ''SMPL0001.WAV'']],
        Inl (OSError [''out'', ''Bank_A'', ''SMPL0002.WAV'']))"
    by (simp only: dir dest append_Nil)
  from copy_failure_aborts_batch [OF parse b p m bl mk2 pl2] f2
  have "create_sp303_banks snare_missing_fs two_pads_pgm [''out'']
     = ([] @ MkDir ([''out''] @ [''Bank_'' @ [bank_names ! 0]])
          # [Copied ''KICK.wav'' [''out'', ''Bank_A'', ''SMPL0001.WAV'']]
          @ NotFound (1 + 1) ''SNARE'' # fst (rest_of_run snare_missing_fs ?P [''out''] 0 1),
        snd (rest_of_run snare_missing_fs ?P [''out''] 0 1))"
    by blast
  with r2 have 2: "create_sp303_banks snare_missing_fs two_pads_pgm [''out'']
     = ([MkDir [''out'', ''Bank_A''], Copied ''KICK.wav'' [''out'', ''Bank_A'', ''SMPL0001.WAV''],
         NotFound 2 ''SNARE'']
          @ fst (rest_of_run snare_missing_fs ?P [''out''] 0 1),
        Inr ())"
    by (simp add: bn)
  from 1 f2 2 show ?thesis by simp
qed

text \<open>
  The copy of the first sample fails; the second sample, whose file is found and whose copy
  would succeed, is never copied, and the banks B to H are never made.
\<close>

theorem copy_failure_counterexample:
  "find_wav_file failing_fs ''SNARE'' = Some ''SNARE.wav''
   \<and> \<not> copy_fails failing_fs ''SNARE.wav'' [''out'', ''Bank_A'', ''SMPL0002.WAV'']
   \<and> create_sp303_banks failing_fs two_pads_pgm [''out'']
       = ([MkDir [''out'', ''Bank_A'']], Inl (OSError [''out'', ''Bank_A'', ''SMPL0001.WAV'']))"
  by code_simp









section \<open>Properties of the WAV preprocessing\<close>

lemmas audio_defs = preprocess_directory_def process_file_def get_wav_info_def is_too_short_def
  pad_short_sample_def convert_format_def wave_write_def written_asset_def py_int_def
  MIN_DURATION_def is_sp303_compatible_def Let_def

lemma process_file_counter_sum:
  "counter_sum (fst (process_file input_path output_dir (c, w) name)) = counter_sum c + 1
   \<or> counter_sum (fst (process_file input_path output_dir (c, w) name)) = counter_sum c + 2"
  by (auto simp: process_file_def counter_sum_def Let_def split: option.splits prod.splits bool.splits)

lemma foldl_process_file_counter_sum:
  "counter_sum (fst cw) + length names
     \<le> counter_sum (fst (foldl (process_file input_path output_dir) cw names))"
proof (induction names arbitrary: cw)
  case Nil
  show ?case by simp
next
  case (Cons n names)
  obtain c w where cw: "cw = (c, w)" by (cases cw)
  from process_file_counter_sum [of input_path output_dir c w n]
  have "counter_sum c + 1 \<le> counter_sum (fst (process_file input_path output_dir (c, w) n))" by auto
  with Cons.IH [of "process_file input_path output_dir (c, w) n"] show ?case
    by (simp add: cw)
qed

lemma process_file_padded_and_flagged:
  assumes "is_too_short (get_wav_info w (input_path @ [name]))"
    and "pad_short_sample w (input_path @ [name])
           ((case output_dir of Some d \<Rightarrow> d | None \<Rightarrow> input_path) @ [name]) MIN_DURATION
         = (True, w1)"
    and "get_wav_info w1 ((case output_dir of Some d \<Rightarrow> d | None \<Rightarrow> input_path) @ [name]) = Some ni"
    and "info_framerate ni \<noteq> 44100 \<or> sample_width ni \<noteq> 2"
  shows "fst (process_file input_path output_dir (c, w) name)
           = c\<lparr>padded_count := padded_count c + 1, format_issues := format_issues c + 1\<rparr>"
proof -
  from assms(1) obtain i where "get_wav_info w (input_path @ [name]) = Some i"
    by (auto simp: is_too_short_def split: option.splits)
  with assms show ?thesis
    by (auto simp: process_file_def Let_def)
qed

text \<open>
  Claim C10. Every file of the directory, readable or not, raises the sum of the four counters
  by one or by two, so after the loop the sum is at least the number of files. A file that is
  too short, is padded, and then still has a frame rate other than 44100 or a sample width
  other than 2 raises both the padded count and the format-issue count; for the directory
  with the one file \<open>a.wav\<close> (100 Hz, 2 frames) the counters add up to 2.
\<close>

theorem counters_not_a_partition:
  "counter_sum c + 1 \<le> counter_sum (fst (process_file input_path output_dir (c, w) name))
   \<and> counter_sum (fst (process_file input_path output_dir (c, w) name)) \<le> counter_sum c + 2
   \<and> (wav_files \<noteq> [] \<longrightarrow>
        (\<exists>s. fst (preprocess_directory w input_path output_dir wav_files) = Some s
             \<and> length wav_files \<le> counter_sum s))
   \<and> (is_too_short (get_wav_info w (input_path @ [name]))
        \<and> pad_short_sample w (input_path @ [name])
             ((case output_dir of Some d \<Rightarrow> d | None \<Rightarrow> input_path) @ [name]) MIN_DURATION
           = (True, w1)
        \<and> get_wav_info w1 ((case output_dir of Some d \<Rightarrow> d | None \<Rightarrow> input_path) @ [name])
           = Some ni
        \<and> (info_framerate ni \<noteq> 44100 \<or> sample_width ni \<noteq> 2)
       \<longrightarrow> fst (process_file input_path output_dir (c, w) name)
             = c\<lparr>padded_count := padded_count c + 1, format_issues := format_issues c + 1\<rparr>)
   \<and> fst (preprocess_directory short_100hz_world [''in''] None [''a.wav''])
       = Some \<lparr>compatible_count = 0, padded_count = 1, format_issues = 1, error_count = 0\<rparr>
   \<and> length [''a.wav''] < counter_sum \<lparr>compatible_count = 0, padded_count = 1, format_issues = 1,
                                   error_count = 0\<rparr>"
proof -
  have 1: "counter_sum c + 1 \<le> counter_sum (fst (process_file input_path output_dir (c, w) name))
           \<and> counter_sum (fst (process_file input_path output_dir (c, w) name)) \<le> counter_sum c + 2"
    using process_file_counter_sum [of input_path output_dir c w name] by auto
  have 2: "\<exists>s. fst (preprocess_directory w input_path output_dir wav_files) = Some s
             \<and> length wav_files \<le> counter_sum s" if "wav_files \<noteq> []"
    using that foldl_process_file_counter_sum [of
        "(\<lparr>compatible_count = 0, padded_count = 0, format_issues = 0, error_count = 0\<rparr>, w)"
        wav_files input_path output_dir]
    by (simp add: preprocess_directory_def Let_def counter_sum_def)
  have 4: "fst (preprocess_directory short_100hz_world [''in''] None [''a.wav''])
       = Some \<lparr>compatible_count = 0, padded_count = 1, format_issues = 1, error_count = 0\<rparr>"
    by (simp add: audio_defs short_100hz_world_def short_100hz_def no_files_def)
  have 5: "length [''a.wav''] < counter_sum \<lparr>compatible_count = 0, padded_count = 1, format_issues = 1,
                                   error_count = 0\<rparr>"
    by (simp add: counter_sum_def)
  from 1 2 process_file_padded_and_flagged [of w input_path name output_dir w1 ni c] 4 5
  show ?thesis by blast
qed

theorem counters_not_a_partition_witness:
  "is_too_short (get_wav_info short_100hz_world [''in'', ''a.wav''])
   \<and> counter_sum (fst (process_file [''in''] None
        (\<lparr>compatible_count = 0, padded_count = 0, format_issues = 0, error_count = 0\<rparr>,
         short_100hz_world) ''a.wav'')) = 2
   \<and> (\<exists>s. fst (preprocess_directory short_100hz_world [''in''] None [''a.wav'', ''missing.wav''])
              = Some s \<and> 2 \<le> counter_sum s)"
proof -
  let ?c0 = "\<lparr>compatible_count = 0, padded_count = 0, format_issues = 0, error_count = 0\<rparr>"
  let ?a1 = "\<lparr>nchannels = 1, sampwidth = 2, framerate = 100, nframes = 11,
               frames = [1, 0, 2, 0] @ replicate 18 (0::byte)\<rparr>"
  let ?w1 = "short_100hz_world\<lparr>files := (files short_100hz_world)([''in'', ''a.wav''] \<mapsto> ?a1)\<rparr>"
  have s: "is_too_short (get_wav_info short_100hz_world ([''in''] @ [''a.wav'']))"
    by (simp add: audio_defs short_100hz_world_def short_100hz_def no_files_def)
  have p: "pad_short_sample short_100hz_world ([''in''] @ [''a.wav''])
             ((case None of Some d \<Rightarrow> d | None \<Rightarrow> [''in'']) @ [''a.wav'']) MIN_DURATION
           = (True, ?w1)"
    by (simp add: audio_defs short_100hz_world_def short_100hz_def no_files_def)
  have g: "get_wav_info ?w1 ((case None of Some d \<Rightarrow> d | None \<Rightarrow> [''in'']) @ [''a.wav''])
           = Some \<lparr>channels = 1, sample_width = 2, info_framerate = 100, info_frames = 11,
                    duration = 11 / 100\<rparr>"
    by (simp add: get_wav_info_def)
  have n: "info_framerate \<lparr>channels = 1, sample_width = 2, info_framerate = 100, info_frames = 11,
                    duration = 11 / 100\<rparr> \<noteq> 44100
           \<or> sample_width \<lparr>channels = 1, sample_width = 2, info_framerate = 100, info_frames = 11,
                    duration = (11 / 100 :: rat)\<rparr> \<noteq> 2"
    by simp
  from counters_not_a_partition [of ?c0 "[''in'']" None short_100hz_world "''a.wav''" "[]" ?w1]
    s p g n
  have "fst (process_file [''in''] None (?c0, short_100hz_world) ''a.wav'')
           = ?c0\<lparr>padded_count := padded_count ?c0 + 1, format_issues := format_issues ?c0 + 1\<rparr>"
    by blast
  then have 1: "counter_sum (fst (process_file [''in''] None (?c0, short_100hz_world) ''a.wav'')) = 2"
    by (simp add: counter_sum_def)
  have ne: "[''a.wav'', ''missing.wav''] \<noteq> []" by simp
  from counters_not_a_partition [of _ _ _ short_100hz_world _ "[''a.wav'', ''missing.wav'']"] ne
  obtain s where s1: "fst (preprocess_directory short_100hz_world [''in''] None [''a.wav'', ''missing.wav''])
              = Some s" and s2: "length [''a.wav'', ''missing.wav''] \<le> counter_sum s"
    by blast
  from s2 have "2 \<le> counter_sum s" by simp
  with s1 have 2: "\<exists>s. fst (preprocess_directory short_100hz_world [''in''] None [''a.wav'', ''missing.wav''])
              = Some s \<and> 2 \<le> counter_sum s"
    by blast
  from s 1 2 show ?thesis by simp
qed

text \<open>
  Claim C3 at a file with three channels, 44100 Hz, 16 bit and 0.11 s: it is not too short,
  \<open>is_sp303_compatible\<close> rejects it, and \<open>preprocess_directory\<close> counts it as compatible.
\<close>

theorem three_channels_counted_compatible:
  "fst (preprocess_directory three_channels_world [''in''] None [''surround.wav''])
     = Some \<lparr>compatible_count = 1, padded_count = 0, format_issues = 0, error_count = 0\<rparr>
   \<and> \<not> is_too_short (get_wav_info three_channels_world [''in'', ''surround.wav''])
   \<and> \<not> is_sp303_compatible (get_wav_info three_channels_world [''in'', ''surround.wav''])"
  by (simp add: audio_defs three_channels_world_def three_channels_def no_files_def)












end
